theory Spec2Isabelle
  imports
    Main
    "HOL-Library.Char_ord"
    "HOL-Library.List_Lexorder"
    "HOL-Library.Product_Lexorder"
begin

section \<open>Data model\<close>

text \<open>
  JSON-like values, for the parts of a record whose shape the sources leave open
  (an event's payload, the extra keys of a file descriptor).
\<close>

datatype jvalue =
    JNull
  | JBool bool
  | JNumber int
  | JString string
  | JArray "jvalue list"
  | JObject "(string \<times> jvalue) list"

text \<open>
  The header of an event log, \<open>{ version, logType }\<close>. The file \<open>header.js\<close> is not
  among the sources; the two fields are those of the specification's data model.
\<close>

record EventHeader =
  version :: nat
  logType :: string

text \<open>
  An event, \<open>{ id, type, targetId, payload, createdAt }\<close>. \<open>remove-event.ts\<close> reads only
  \<open>id\<close> (\<open>ev: { id: string }\<close>). Timestamps are ISO strings, as \<open>updated?: string\<close> of
  \<open>Taggable\<close> is; they are compared as strings.
\<close>

record Event =
  ev_id :: string
  ev_type :: string
  targetId :: string
  payload :: jvalue
  createdAt :: string

text \<open>The log document \<open>{ header, data: [Event, ...] }\<close>; \<open>removeEvent\<close> reads \<open>fileEvents.data\<close>.\<close>

record EventLog =
  header :: EventHeader
  data :: "Event list"

text \<open>
  A file descriptor of an entry: \<open>{ filepath: string } & Record<string, unknown>\<close>
  in the interface \<open>Taggable\<close>.
\<close>

record FileDesc =
  filepath :: string
  otherKeys :: "(string \<times> jvalue) list"

text \<open>
  A catalog entry. The interface \<open>Taggable\<close> declares \<open>id\<close> and the optional
  \<open>updated\<close>, \<open>tags\<close>, \<open>appliedEventIds\<close> and \<open>files\<close>; the server's \<open>applyEvents\<close>
  assigns \<open>hash\<close>. An optional key that is absent is \<open>None\<close>.
\<close>

record Entry =
  entry_id :: string
  updated :: "string option"
  tags :: "string list option"
  appliedEventIds :: "string list option"
  files :: "FileDesc list option"
  hash :: "string option"

datatype error = MalformedLog | IncompatibleHeader | MutationFailed

text \<open>
  What a JavaScript function hands back: a bare \<open>return\<close> gives \<open>undefined\<close>,
  \<open>return null\<close> gives \<open>null\<close>, and otherwise a value.
\<close>

datatype 'a jsResult = Undefined | Null | Value 'a

section \<open>The file system\<close>

text \<open>
  A file either parses as a log document or it does not. The state of the file system is
  the content of every path together with the trace of the operations performed so far,
  so that "no read" and "no write" can be stated. Failures of the device (a write that
  does not complete) are outside this model.
\<close>

datatype FileContent = LogFile EventLog | Unparsable string

datatype IoOp = Access string | ReadFile string | WriteFile string

record FsState =
  disk :: "string \<rightharpoonup> FileContent"
  io_trace :: "IoOp list"

text \<open>\<open>fs.access(eventsFilename).then(() => true).catch(() => false)\<close>\<close>

definition fsAccess :: "FsState \<Rightarrow> string \<Rightarrow> bool \<times> FsState" where
  "fsAccess s eventsFilename =
     (disk s eventsFilename \<noteq> None, s\<lparr>io_trace := io_trace s @ [Access eventsFilename]\<rparr>)"

text \<open>
  Modelled from the spec: \<open>read-events.js\<close> is missing. \<open>readEvents(path)\<close>: if the file
  does not exist, the result is a log with a default header and no events; if the file
  exists but fails to parse, it fails with \<open>MalformedLog\<close>. The default header is a
  parameter.
\<close>

definition readEvents :: "EventHeader \<Rightarrow> FsState \<Rightarrow> string \<Rightarrow> (error + EventLog) \<times> FsState" where
  "readEvents defaultHeader s eventsFilename =
     (let s' = s\<lparr>io_trace := io_trace s @ [ReadFile eventsFilename]\<rparr> in
      case disk s eventsFilename of
        None \<Rightarrow> (Inr \<lparr>header = defaultHeader, data = []\<rparr>, s')
      | Some (Unparsable raw) \<Rightarrow> (Inl MalformedLog, s')
      | Some (LogFile l) \<Rightarrow> (Inr l, s'))"

text \<open>
  Modelled from the spec: \<open>append-event.js\<close> is missing. \<open>writeEvents(path, events)\<close>
  replaces the full event sequence and preserves the header; a path that holds no log
  gets the default header.
\<close>

definition writeEvents :: "EventHeader \<Rightarrow> FsState \<Rightarrow> string \<Rightarrow> Event list \<Rightarrow> FsState" where
  "writeEvents defaultHeader s eventsFilename events =
     (let h = (case disk s eventsFilename of
                 Some (LogFile l) \<Rightarrow> header l
               | _ \<Rightarrow> defaultHeader)
      in s\<lparr>disk := (disk s)(eventsFilename \<mapsto> LogFile \<lparr>header = h, data = events\<rparr>),
            io_trace := io_trace s @ [WriteFile eventsFilename]\<rparr>)"

section \<open>Removing an event\<close>

text \<open>
  \<open>removeEvent\<close> of \<open>packages/events/src/remove-event.ts\<close>, the awaited calls in
  sequence. The result is the error a failed read throws, or what the function returns.
\<close>

definition removeEvent ::
  "EventHeader \<Rightarrow> FsState \<Rightarrow> string \<Rightarrow> Event \<Rightarrow> (error + Event jsResult) \<times> FsState" where
  "removeEvent defaultHeader s eventsFilename eventToRemove =
     (case fsAccess s eventsFilename of (exists, s1) \<Rightarrow>
        if \<not> exists then (Inr Undefined, s1)
        else
          (case readEvents defaultHeader s1 eventsFilename of
             (Inl err, s2) \<Rightarrow> (Inl err, s2)
           | (Inr fileEvents, s2) \<Rightarrow>
               (let targetId = ev_id eventToRemove;
                    removedEvents = filter (\<lambda>ev. ev_id ev = targetId) (data fileEvents)
                in case removedEvents of
                     [] \<Rightarrow> (Inr Null, s2)
                   | first # _ \<Rightarrow>
                       (let remaining = filter (\<lambda>ev. ev_id ev \<noteq> targetId) (data fileEvents);
                            s3 = writeEvents defaultHeader s2 eventsFilename remaining
                        in (Inr (Value first), s3)))))"

section \<open>Content hash\<close>

text \<open>
  Modelled from the spec: \<open>serialize\<close> and \<open>createHash\<close> of \<open>@home-gallery/common\<close> are
  missing. The Content Hasher canonicalizes the entry by serializing all fields except the
  excluded ones, then applies a digest. The canonical form is the sequence of the entry's
  present keys with their values, in one fixed order; the digest \<open>createHash\<close> is a
  parameter of everything that hashes.
\<close>

type_synonym serialized = "(string \<times> jvalue) list"

definition optionalKey :: "string \<Rightarrow> jvalue option \<Rightarrow> (string \<times> jvalue) list" where
  "optionalKey k v = (case v of None \<Rightarrow> [] | Some x \<Rightarrow> [(k, x)])"

definition fileValue :: "FileDesc \<Rightarrow> jvalue" where
  "fileValue f = JObject ((''filepath'', JString (filepath f)) # otherKeys f)"

text \<open>
  Modelled from the spec: the keys an entry holds, as the persisted shape lists them
  (\<open>{ id, updated, tags[], appliedEventIds[], files[], hash }\<close>); an absent optional
  key contributes nothing.
\<close>

definition entryKeys :: "Entry \<Rightarrow> (string \<times> jvalue) list" where
  "entryKeys entry =
     [(''id'', JString (entry_id entry))]
     @ optionalKey ''updated'' (map_option JString (updated entry))
     @ optionalKey ''tags'' (map_option (\<lambda>ts. JArray (map JString ts)) (tags entry))
     @ optionalKey ''appliedEventIds''
         (map_option (\<lambda>ids. JArray (map JString ids)) (appliedEventIds entry))
     @ optionalKey ''files'' (map_option (\<lambda>fs. JArray (map fileValue fs)) (files entry))
     @ optionalKey ''hash'' (map_option JString (hash entry))"

text \<open>
  Modelled from the spec: \<open>serialize(entry, excludeKeys)\<close> serializes all fields of
  the entry except those named in \<open>excludeKeys\<close>.
\<close>

definition serialize :: "Entry \<Rightarrow> string list \<Rightarrow> serialized" where
  "serialize entry excludeKeys =
     filter (\<lambda>kv. fst kv \<notin> set excludeKeys) (entryKeys entry)"

section \<open>Replay\<close>

text \<open>
  Modelled from the spec: \<open>applyEvents\<close> of \<open>@home-gallery/events\<close> (imported by the
  server as \<open>applyEventsOrig\<close>) is missing. The database snapshot is a mapping from entry
  id to entry. For each event, in order: resolve \<open>targetId\<close>, and skip the event if no
  entry is found; skip it if its id is already among the entry's \<open>appliedEventIds\<close>;
  otherwise dispatch on the event's type to a mutation function, record the event's id
  into \<open>appliedEventIds\<close>, set \<open>updated\<close> to the event's \<open>createdAt\<close>, and record the
  entry as changed, once per entry. A failing mutation is fatal. The table of mutation
  functions is a parameter: \<open>None\<close> is a mutation that fails.

  The entries are mutated in place and the changed entries are returned by reference:
  here a reference to an entry of the snapshot is its key.
\<close>

type_synonym snapshot = "string \<rightharpoonup> Entry"

type_synonym mutationTable = "string \<Rightarrow> jvalue \<Rightarrow> Entry \<Rightarrow> Entry option"

definition appliedIds :: "Entry \<Rightarrow> string list" where
  "appliedIds entry = (case appliedEventIds entry of None \<Rightarrow> [] | Some ids \<Rightarrow> ids)"

text \<open>
  Modelled from the spec: one step of the replay, steps 1 to 4 of the Event Applier, on
  the snapshot and the list of references changed so far.
\<close>

definition applyEvent ::
  "mutationTable \<Rightarrow> snapshot \<times> string list \<Rightarrow> Event \<Rightarrow> error + (snapshot \<times> string list)" where
  "applyEvent table st event =
     (case st of (entries, changed) \<Rightarrow>
        (case entries (targetId event) of
           None \<Rightarrow> Inr (entries, changed)
         | Some entry \<Rightarrow>
             if ev_id event \<in> set (appliedIds entry) then Inr (entries, changed)
             else
               (case table (ev_type event) (payload event) entry of
                  None \<Rightarrow> Inl MutationFailed
                | Some mutated \<Rightarrow>
                    Inr (entries(targetId event \<mapsto>
                           mutated\<lparr>appliedEventIds := Some (appliedIds mutated @ [ev_id event]),
                                   updated := Some (createdAt event)\<rparr>),
                         if targetId event \<in> set changed then changed
                         else changed @ [targetId event]))))"

text \<open>
  Modelled from the spec: the events are applied strictly in the order of the sequence;
  the first failing mutation ends the replay.
\<close>

fun applyEventsLoop ::
  "mutationTable \<Rightarrow> snapshot \<times> string list \<Rightarrow> Event list \<Rightarrow> error + (snapshot \<times> string list)" where
  "applyEventsLoop table st [] = Inr st"
| "applyEventsLoop table st (event # events) =
     (case applyEvent table st event of
        Inl err \<Rightarrow> Inl err
      | Inr st' \<Rightarrow> applyEventsLoop table st' events)"

text \<open>
  Modelled from the spec: \<open>applyEvents(database, events, logPath)\<close> of the events
  package returns the changed entries; the specification gives the path no role in the
  replay.
\<close>

definition applyEventsOrig ::
  "mutationTable \<Rightarrow> snapshot \<Rightarrow> Event list \<Rightarrow> string \<Rightarrow> error + (snapshot \<times> string list)" where
  "applyEventsOrig table entries events eventsFilename =
     applyEventsLoop table (entries, []) events"

text \<open>
  The server's \<open>applyEvents\<close> (\<open>apply-events-server.js\<close>): it replays the events on
  \<open>database.data\<close>, then assigns to every changed entry
  \<open>entry.hash = createHash(serialize(entry, ['hash', 'appliedEventIds']))\<close>, and returns
  the changed entries. The assignment goes through the reference, so it is seen in the
  database.
\<close>

record Database =
  db_data :: snapshot

text \<open>
  One round of the \<open>forEach\<close>. A reference always leads to an entry in the program; the
  \<open>None\<close> case only makes the function total.
\<close>

definition assignHash :: "(serialized \<Rightarrow> string) \<Rightarrow> string \<Rightarrow> snapshot \<Rightarrow> snapshot" where
  "assignHash createHash ref entries =
     (case entries ref of
        None \<Rightarrow> entries
      | Some entry \<Rightarrow>
          entries(ref \<mapsto>
            entry\<lparr>hash := Some (createHash (serialize entry [''hash'', ''appliedEventIds'']))\<rparr>))"

definition applyEvents ::
  "(serialized \<Rightarrow> string) \<Rightarrow> mutationTable \<Rightarrow> Database \<Rightarrow> Event list \<Rightarrow> string
     \<Rightarrow> error + (Database \<times> string list)" where
  "applyEvents createHash table database events eventsFilename =
     (case applyEventsOrig table (db_data database) events eventsFilename of
        Inl err \<Rightarrow> Inl err
      | Inr (entries, changedEntries) \<Rightarrow>
          Inr (database\<lparr>db_data := fold (assignHash createHash) changedEntries entries\<rparr>,
               changedEntries))"

section \<open>Merging logs\<close>

text \<open>
  Modelled from the spec: \<open>header.js\<close> is missing. Two headers are compatible iff they
  have the same \<open>logType\<close> and their versions are in the same compatibility class; the
  class of a version is a parameter.
\<close>

definition isEventTypeCompatible :: "(nat \<Rightarrow> nat) \<Rightarrow> EventHeader \<Rightarrow> EventHeader \<Rightarrow> bool" where
  "isEventTypeCompatible versionClass a b \<longleftrightarrow>
     logType a = logType b \<and> versionClass (version a) = versionClass (version b)"

text \<open>
  Modelled from the spec: \<open>merge-events.js\<close> is missing. The union of events by id:
  duplicates collapse to a single copy. Ids are globally unique, so the copies of an
  event are equal; the one kept here is the first met in the sequence.
\<close>

fun unionById :: "Event list \<Rightarrow> Event list" where
  "unionById [] = []"
| "unionById (e # es) = e # filter (\<lambda>x. ev_id x \<noteq> ev_id e) (unionById es)"

text \<open>Modelled from the spec: the sort key \<open>(createdAt, id)\<close> of the merged sequence.\<close>

definition sortKey :: "Event \<Rightarrow> string \<times> string" where
  "sortKey e = (createdAt e, ev_id e)"

text \<open>
  Modelled from the spec: \<open>mergeEvents(logA, logB)\<close> fails with \<open>IncompatibleHeader\<close>
  unless the headers are compatible; otherwise it unions the events of \<open>logA\<close> and
  \<open>logB\<close> by id and sorts the union by \<open>(createdAt, id)\<close>. The header of the result is
  the one with the higher version (no version downgrade).
\<close>

definition mergeEvents :: "(nat \<Rightarrow> nat) \<Rightarrow> EventLog \<Rightarrow> EventLog \<Rightarrow> error + EventLog" where
  "mergeEvents versionClass logA logB =
     (if \<not> isEventTypeCompatible versionClass (header logA) (header logB)
      then Inl IncompatibleHeader
      else Inr \<lparr>header = (if version (header logB) \<le> version (header logA)
                           then header logA else header logB),
                data = sort_key sortKey (unionById (data logA @ data logB))\<rparr>)"

section \<open>Notions used in the proofs\<close>

text \<open>
  An event is settled in a snapshot when replaying it there does nothing: its target is
  absent, or its id is already among the target's applied event ids. A snapshot extends
  another when it has the same keys and every entry has kept its applied event ids. An
  entry is hashed when its \<open>hash\<close> is the digest of its serialization.
\<close>

definition settled :: "snapshot \<Rightarrow> Event \<Rightarrow> bool" where
  "settled entries event =
     (case entries (targetId event) of
        None \<Rightarrow> True
      | Some entry \<Rightarrow> ev_id event \<in> set (appliedIds entry))"

definition extends :: "snapshot \<Rightarrow> snapshot \<Rightarrow> bool" where
  "extends d d' \<longleftrightarrow>
     (\<forall>k. case d k of
            None \<Rightarrow> d' k = None
          | Some e \<Rightarrow> (\<exists>e'. d' k = Some e' \<and> set (appliedIds e) \<subseteq> set (appliedIds e')))"

definition hashed :: "(serialized \<Rightarrow> string) \<Rightarrow> snapshot \<Rightarrow> string \<Rightarrow> bool" where
  "hashed createHash entries ref =
     (case entries ref of
        None \<Rightarrow> False
      | Some entry \<Rightarrow>
          hash entry = Some (createHash (serialize entry [''hash'', ''appliedEventIds''])))"

section \<open>Example data\<close>

text \<open>
  The scenario of the specification: events of type \<open>addTag\<close> with payload
  \<open>{ tag: ... }\<close> that target the entry \<open>x\<close>, which starts with no tags and no applied
  events; a mutation table that knows \<open>addTag\<close> only; and a toy digest.
\<close>

definition exHeader :: EventHeader where
  "exHeader = \<lparr>version = 1, logType = ''events''\<rparr>"

definition exEvent :: "string \<Rightarrow> string \<Rightarrow> string \<Rightarrow> Event" where
  "exEvent i tag date =
     \<lparr>ev_id = i, ev_type = ''addTag'', targetId = ''x'',
       payload = JObject [(''tag'', JString tag)], createdAt = date\<rparr>"

definition exLog :: EventLog where
  "exLog = \<lparr>header = exHeader,
            data = [exEvent ''e1'' ''beach'' ''2024-01-01'',
                    exEvent ''e2'' ''sea'' ''2024-01-02'',
                    exEvent ''e3'' ''sun'' ''2024-01-03'']\<rparr>"

definition exDupLog :: EventLog where
  "exDupLog = \<lparr>header = exHeader,
            data = [exEvent ''e1'' ''beach'' ''2024-01-01'',
                    exEvent ''e2'' ''sea'' ''2024-01-02'',
                    exEvent ''e3'' ''sun'' ''2024-01-03'',
                    exEvent ''e2'' ''sand'' ''2024-01-04'']\<rparr>"

definition exFs :: "EventLog \<Rightarrow> FsState" where
  "exFs l = \<lparr>disk = [''events.db'' \<mapsto> LogFile l], io_trace = []\<rparr>"

definition exTable :: mutationTable where
  "exTable ty pl entry =
     (if ty = ''addTag''
      then (case pl of
              JObject [(k, JString t)] \<Rightarrow>
                if k = ''tag''
                then Some (entry\<lparr>tags := Some ((case tags entry of None \<Rightarrow> [] | Some ts \<Rightarrow> ts) @ [t])\<rparr>)
                else None
            | _ \<Rightarrow> None)
      else None)"

definition exHash :: "serialized \<Rightarrow> string" where
  "exHash s = concat (map fst s)"

definition exEntry :: Entry where
  "exEntry = \<lparr>entry_id = ''x'', updated = None, tags = Some [], appliedEventIds = Some [],
              files = None, hash = None\<rparr>"

definition exVersionClass :: "nat \<Rightarrow> nat" where
  "exVersionClass v = v div 100"

definition exOtherLog :: EventLog where
  "exOtherLog = \<lparr>header = \<lparr>version = 2, logType = ''events''\<rparr>,
                 data = [exEvent ''e0'' ''hill'' ''2023-12-31'',
                         exEvent ''e2'' ''sea'' ''2024-01-02'']\<rparr>"

section \<open>Properties of removeEvent\<close>

lemma removeEvent_absent:
  "disk s p = None \<Longrightarrow>
     removeEvent h0 s p t = (Inr Undefined, s\<lparr>io_trace := io_trace s @ [Access p]\<rparr>)"
  by (simp add: removeEvent_def fsAccess_def)

lemma removeEvent_no_match:
  assumes "disk s p = Some (LogFile l)"
    and "filter (\<lambda>ev. ev_id ev = ev_id t) (data l) = []"
  shows "removeEvent h0 s p t =
           (Inr Null, s\<lparr>io_trace := io_trace s @ [Access p, ReadFile p]\<rparr>)"
  using assms by (simp add: removeEvent_def fsAccess_def readEvents_def)

lemma removeEvent_match:
  assumes "disk s p = Some (LogFile l)"
    and "filter (\<lambda>ev. ev_id ev = ev_id t) (data l) = x # xs"
  shows "removeEvent h0 s p t =
           (Inr (Value x),
            s\<lparr>disk := (disk s)(p \<mapsto> LogFile (l\<lparr>data := filter (\<lambda>ev. ev_id ev \<noteq> ev_id t) (data l)\<rparr>)),
              io_trace := io_trace s @ [Access p, ReadFile p, WriteFile p]\<rparr>)"
  using assms
  by (cases l) (simp add: removeEvent_def fsAccess_def readEvents_def writeEvents_def)

lemma filter_eq_single:
  assumes "\<forall>e\<in>set (before @ after). f e \<noteq> k" and "f x = k"
  shows "filter (\<lambda>e. f e = k) (before @ x # after) = [x]"
    and "filter (\<lambda>e. f e \<noteq> k) (before @ x # after) = before @ after"
  using assms by (auto simp: filter_empty_conv filter_id_conv)

lemma filter_distinct_single:
  "distinct (map f xs) \<Longrightarrow> x \<in> set xs \<Longrightarrow> filter (\<lambda>e. f e = f x) xs = [x]"
proof (induction xs)
  case Nil
  then show ?case by simp
next
  case (Cons a xs)
  show ?case
  proof (cases "a = x")
    case True
    from Cons.prems True have "f x \<notin> f ` set xs" by simp
    then have "\<forall>e\<in>set xs. f e \<noteq> f x" by (metis imageI)
    then have "filter (\<lambda>e. f e = f x) xs = []" by (simp add: filter_empty_conv)
    with True show ?thesis by simp
  next
    case False
    with Cons.prems have "x \<in> set xs" and "f a \<noteq> f x" by auto
    with Cons show ?thesis by simp
  qed
qed

text \<open>
  C4. If the log file exists and holds exactly one event with the target's id (the event
  \<open>x\<close>, between the events \<open>before\<close> and \<open>after\<close>, none of which has that id), then
  \<open>removeEvent\<close> returns \<open>x\<close> and rewrites the file: its header is kept and its events are
  exactly the others, \<open>before @ after\<close>, in their order. It accesses, reads and writes the
  file once each.
\<close>

theorem removeEvent_single_match:
  assumes "disk s p = Some (LogFile l)"
    and "data l = before @ x # after"
    and "ev_id x = ev_id t"
    and "\<forall>e\<in>set (before @ after). ev_id e \<noteq> ev_id t"
  shows "removeEvent h0 s p t =
           (Inr (Value x),
            s\<lparr>disk := (disk s)(p \<mapsto> LogFile (l\<lparr>data := before @ after\<rparr>)),
              io_trace := io_trace s @ [Access p, ReadFile p, WriteFile p]\<rparr>)"
proof -
  have one: "filter (\<lambda>ev. ev_id ev = ev_id t) (data l) = [x]"
    and rest: "filter (\<lambda>ev. ev_id ev \<noteq> ev_id t) (data l) = before @ after"
    using filter_eq_single [OF assms(4) assms(3)] assms(2) by simp_all
  show ?thesis
    using removeEvent_match [OF assms(1) one, of h0] rest by simp
qed

theorem removeEvent_single_match_witness:
  "removeEvent exHeader (exFs exLog) ''events.db'' (exEvent ''e2'' '''' '''') =
     (Inr (Value (exEvent ''e2'' ''sea'' ''2024-01-02'')),
      \<lparr>disk = [''events.db'' \<mapsto> LogFile \<lparr>header = exHeader,
                 data = [exEvent ''e1'' ''beach'' ''2024-01-01'',
                         exEvent ''e3'' ''sun'' ''2024-01-03'']\<rparr>],
       io_trace = [Access ''events.db'', ReadFile ''events.db'', WriteFile ''events.db'']\<rparr>)"
  using removeEvent_single_match
    [of "exFs exLog" "''events.db''" exLog "[exEvent ''e1'' ''beach'' ''2024-01-01'']"
        "exEvent ''e2'' ''sea'' ''2024-01-02''" "[exEvent ''e3'' ''sun'' ''2024-01-03'']"
        "exEvent ''e2'' '''' ''''" exHeader]
  by (simp add: exFs_def exLog_def exEvent_def)

text \<open>
  C5. If the log file exists and none of its events has the target's id, \<open>removeEvent\<close>
  returns \<open>null\<close> and does not rewrite the file: the disk is unchanged and the only
  operations are the access check and the read.
\<close>

theorem removeEvent_unknown_id:
  assumes "disk s p = Some (LogFile l)"
    and "\<forall>e\<in>set (data l). ev_id e \<noteq> ev_id t"
  shows "removeEvent h0 s p t =
           (Inr Null, s\<lparr>io_trace := io_trace s @ [Access p, ReadFile p]\<rparr>)"
proof -
  from assms(2) have "filter (\<lambda>ev. ev_id ev = ev_id t) (data l) = []"
    by (simp add: filter_empty_conv)
  with assms(1) show ?thesis by (rule removeEvent_no_match)
qed

theorem removeEvent_unknown_id_witness:
  "removeEvent exHeader (exFs exLog) ''events.db'' (exEvent ''e9'' '''' '''') =
     (Inr Null,
      \<lparr>disk = [''events.db'' \<mapsto> LogFile exLog],
       io_trace = [Access ''events.db'', ReadFile ''events.db'']\<rparr>)"
  using removeEvent_unknown_id
    [of "exFs exLog" "''events.db''" exLog "exEvent ''e9'' '''' ''''" exHeader]
  by (simp add: exFs_def exLog_def exEvent_def)

text \<open>
  C6. If no file exists at the path, \<open>removeEvent\<close> is a no-op: it returns nothing removed
  (\<open>undefined\<close>, not an error), the disk is unchanged (no file is created or written), and
  the only operation is the access check (the log is not read).
\<close>

theorem removeEvent_absent_file:
  assumes "disk s p = None"
  shows "removeEvent h0 s p t = (Inr Undefined, s\<lparr>io_trace := io_trace s @ [Access p]\<rparr>)"
  using assms by (rule removeEvent_absent)

theorem removeEvent_absent_file_witness:
  "removeEvent exHeader (exFs exLog) ''other.db'' (exEvent ''e2'' '''' '''') =
     (Inr Undefined,
      \<lparr>disk = [''events.db'' \<mapsto> LogFile exLog], io_trace = [Access ''other.db'']\<rparr>)"
  using removeEvent_absent_file
    [of "exFs exLog" "''other.db''" exHeader "exEvent ''e2'' '''' ''''"]
  by (simp add: exFs_def)

text \<open>
  C7. If the log file exists, no two of its events share an id, and it holds the target
  (an event \<open>x\<close> with the target's id), then the first \<open>removeEvent\<close> returns \<open>x\<close>, a
  second \<open>removeEvent\<close> with the same target returns \<open>null\<close>, and the log that is left
  holds exactly one event fewer than the original.
\<close>

theorem removeEvent_twice:
  assumes "disk s p = Some (LogFile l)"
    and "distinct (map ev_id (data l))"
    and "x \<in> set (data l)"
    and "ev_id x = ev_id t"
  shows "\<exists>s1 s2 l2.
           removeEvent h0 s p t = (Inr (Value x), s1) \<and>
           removeEvent h0 s1 p t = (Inr Null, s2) \<and>
           disk s2 p = Some (LogFile l2) \<and>
           Suc (length (data l2)) = length (data l)"
proof -
  let ?rest = "filter (\<lambda>ev. ev_id ev \<noteq> ev_id t) (data l)"
  let ?l2 = "l\<lparr>data := ?rest\<rparr>"
  let ?s1 = "s\<lparr>disk := (disk s)(p \<mapsto> LogFile ?l2),
               io_trace := io_trace s @ [Access p, ReadFile p, WriteFile p]\<rparr>"
  let ?s2 = "?s1\<lparr>io_trace := io_trace ?s1 @ [Access p, ReadFile p]\<rparr>"
  have one: "filter (\<lambda>ev. ev_id ev = ev_id t) (data l) = [x]"
    using filter_distinct_single [OF assms(2) assms(3)] assms(4) by simp
  have first: "removeEvent h0 s p t = (Inr (Value x), ?s1)"
    using removeEvent_match [OF assms(1) one] .
  have d1: "disk ?s1 p = Some (LogFile ?l2)" by simp
  have none: "filter (\<lambda>ev. ev_id ev = ev_id t) (data ?l2) = []"
    by (simp add: filter_empty_conv)
  have second: "removeEvent h0 ?s1 p t = (Inr Null, ?s2)"
    using removeEvent_no_match [OF d1 none] .
  have "length (filter (\<lambda>ev. ev_id ev = ev_id t) (data l)) + length ?rest = length (data l)"
    by (rule sum_length_filter_compl)
  with one have len: "Suc (length (data ?l2)) = length (data l)" by simp
  have d2: "disk ?s2 p = Some (LogFile ?l2)" by simp
  from first second d2 len show ?thesis by blast
qed

theorem removeEvent_twice_witness:
  "fst (removeEvent exHeader (exFs exLog) ''events.db'' (exEvent ''e2'' ''sea'' ''2024-01-02''))
     = Inr (Value (exEvent ''e2'' ''sea'' ''2024-01-02'')) \<and>
   (\<exists>s1 s2 l2.
      removeEvent exHeader (exFs exLog) ''events.db'' (exEvent ''e2'' ''sea'' ''2024-01-02'')
        = (Inr (Value (exEvent ''e2'' ''sea'' ''2024-01-02'')), s1) \<and>
      removeEvent exHeader s1 ''events.db'' (exEvent ''e2'' ''sea'' ''2024-01-02'') = (Inr Null, s2) \<and>
      disk s2 ''events.db'' = Some (LogFile l2) \<and>
      Suc (length (data l2)) = 3)"
  using removeEvent_twice
    [of "exFs exLog" "''events.db''" exLog "exEvent ''e2'' ''sea'' ''2024-01-02''"
        "exEvent ''e2'' ''sea'' ''2024-01-02''" exHeader]
  by (auto simp: exFs_def exLog_def exEvent_def)

text \<open>
  C9. The two "nothing removed" outcomes differ in the returned value: on a state where the
  file is absent \<open>removeEvent\<close> returns \<open>undefined\<close>, on a state where the file exists
  and holds no event with the target's id it returns \<open>null\<close>, and the two results are
  different.
\<close>

theorem removeEvent_absent_differs_from_unknown:
  assumes "disk s1 p = None"
    and "disk s2 p = Some (LogFile l)"
    and "\<forall>e\<in>set (data l). ev_id e \<noteq> ev_id t"
  shows "fst (removeEvent h0 s1 p t) = Inr Undefined \<and>
         fst (removeEvent h0 s2 p t) = Inr Null \<and>
         fst (removeEvent h0 s1 p t) \<noteq> fst (removeEvent h0 s2 p t)"
proof -
  from assms(3) have "filter (\<lambda>ev. ev_id ev = ev_id t) (data l) = []"
    by (simp add: filter_empty_conv)
  with assms(2) have "fst (removeEvent h0 s2 p t) = Inr Null"
    by (simp add: removeEvent_no_match)
  moreover from assms(1) have "fst (removeEvent h0 s1 p t) = Inr Undefined"
    by (simp add: removeEvent_absent)
  ultimately show ?thesis by simp
qed

theorem removeEvent_absent_differs_from_unknown_witness:
  "fst (removeEvent exHeader \<lparr>disk = Map.empty, io_trace = []\<rparr> ''events.db'' (exEvent ''e9'' '''' ''''))
     = Inr Undefined \<and>
   fst (removeEvent exHeader (exFs exLog) ''events.db'' (exEvent ''e9'' '''' '''')) = Inr Null"
  using removeEvent_absent_differs_from_unknown
    [of "\<lparr>disk = Map.empty, io_trace = []\<rparr>" "''events.db''" "exFs exLog" exLog
        "exEvent ''e9'' '''' ''''" exHeader]
  by (simp add: exFs_def exLog_def exEvent_def)

lemma find_filter_Cons:
  "filter P xs = x # ys \<Longrightarrow> List.find P xs = Some x"
  by (induction xs) (auto split: if_splits)

text \<open>
  C10. If the log file holds two or more events with the target's id, \<open>removeEvent\<close>
  returns the first of them in log order, and the rewritten file holds the events with a
  different id, in their order, and none with the target's id: the log shrinks by the
  number of matching events.
\<close>

theorem removeEvent_duplicate_ids:
  assumes "disk s p = Some (LogFile l)"
    and "2 \<le> length (filter (\<lambda>e. ev_id e = ev_id t) (data l))"
  shows "\<exists>x s' l'.
           removeEvent h0 s p t = (Inr (Value x), s') \<and>
           List.find (\<lambda>e. ev_id e = ev_id t) (data l) = Some x \<and>
           disk s' p = Some (LogFile l') \<and>
           data l' = filter (\<lambda>e. ev_id e \<noteq> ev_id t) (data l) \<and>
           (\<forall>e\<in>set (data l'). ev_id e \<noteq> ev_id t) \<and>
           length (data l') + length (filter (\<lambda>e. ev_id e = ev_id t) (data l)) = length (data l)"
proof -
  let ?rest = "filter (\<lambda>ev. ev_id ev \<noteq> ev_id t) (data l)"
  let ?l' = "l\<lparr>data := ?rest\<rparr>"
  let ?s' = "s\<lparr>disk := (disk s)(p \<mapsto> LogFile ?l'),
               io_trace := io_trace s @ [Access p, ReadFile p, WriteFile p]\<rparr>"
  from assms(2) obtain x xs where m: "filter (\<lambda>e. ev_id e = ev_id t) (data l) = x # xs"
    by (cases "filter (\<lambda>e. ev_id e = ev_id t) (data l)") auto
  have r: "removeEvent h0 s p t = (Inr (Value x), ?s')"
    using removeEvent_match [OF assms(1) m] .
  have f: "List.find (\<lambda>e. ev_id e = ev_id t) (data l) = Some x"
    using m by (rule find_filter_Cons)
  have d: "disk ?s' p = Some (LogFile ?l')" by simp
  have e: "data ?l' = ?rest" by simp
  have n: "\<forall>e\<in>set (data ?l'). ev_id e \<noteq> ev_id t" by simp
  have len: "length (data ?l') + length (filter (\<lambda>e. ev_id e = ev_id t) (data l)) = length (data l)"
    using sum_length_filter_compl [of "\<lambda>e. ev_id e = ev_id t" "data l"] by simp
  from r f d e n len show ?thesis by blast
qed

theorem removeEvent_duplicate_ids_witness:
  "\<exists>s' l'.
     removeEvent exHeader (exFs exDupLog) ''events.db'' (exEvent ''e2'' '''' '''')
       = (Inr (Value (exEvent ''e2'' ''sea'' ''2024-01-02'')), s') \<and>
     disk s' ''events.db'' = Some (LogFile l') \<and>
     data l' = [exEvent ''e1'' ''beach'' ''2024-01-01'', exEvent ''e3'' ''sun'' ''2024-01-03'']"
  using removeEvent_duplicate_ids
    [of "exFs exDupLog" "''events.db''" exDupLog "exEvent ''e2'' '''' ''''" exHeader]
  by (auto simp: exFs_def exDupLog_def exEvent_def)

section \<open>Properties of the content hash\<close>

lemma serialize_bookkeeping:
  "serialize (entry\<lparr>hash := h\<rparr>) [''hash'', ''appliedEventIds'']
     = serialize entry [''hash'', ''appliedEventIds'']"
  "serialize (entry\<lparr>appliedEventIds := ids\<rparr>) [''hash'', ''appliedEventIds'']
     = serialize entry [''hash'', ''appliedEventIds'']"
  by (simp_all add: serialize_def entryKeys_def optionalKey_def split: option.splits)

text \<open>
  C3. Two entries that agree on every field other than \<open>hash\<close> and \<open>appliedEventIds\<close>
  (the id, \<open>updated\<close>, the tags and the files) have the same content hash, whatever the
  digest is: \<open>createHash\<close> of the serialization without \<open>hash\<close> and \<open>appliedEventIds\<close>
  does not depend on the event history.
\<close>

theorem content_hash_ignores_bookkeeping:
  assumes "entry_id a = entry_id b" and "updated a = updated b"
    and "tags a = tags b" and "files a = files b"
  shows "createHash (serialize a [''hash'', ''appliedEventIds''])
           = createHash (serialize b [''hash'', ''appliedEventIds''])"
proof -
  have "serialize a [''hash'', ''appliedEventIds''] = serialize b [''hash'', ''appliedEventIds'']"
    using assms by (simp add: serialize_def entryKeys_def optionalKey_def split: option.splits)
  then show ?thesis by simp
qed

theorem content_hash_ignores_bookkeeping_witness:
  "exEntry\<lparr>appliedEventIds := Some [''e1'', ''e2''], hash := Some ''old''\<rparr> \<noteq> exEntry \<and>
   exHash (serialize (exEntry\<lparr>appliedEventIds := Some [''e1'', ''e2''], hash := Some ''old''\<rparr>)
             [''hash'', ''appliedEventIds''])
     = exHash (serialize exEntry [''hash'', ''appliedEventIds'']) \<and>
   exHash (serialize exEntry [''hash'', ''appliedEventIds'']) = ''idtags''"
  using content_hash_ignores_bookkeeping
    [of "exEntry\<lparr>appliedEventIds := Some [''e1'', ''e2''], hash := Some ''old''\<rparr>" exEntry exHash]
  by (simp add: exEntry_def exHash_def serialize_def entryKeys_def optionalKey_def)

section \<open>Properties of applyEvents\<close>

subsection \<open>Every returned entry is rehashed\<close>

lemma assignHash_dom: "dom (assignHash createHash ref d) = dom d"
  by (auto simp: assignHash_def split: option.splits)

lemma assignHash_same:
  "d ref = Some e \<Longrightarrow> hashed createHash (assignHash createHash ref d) ref"
  by (simp add: assignHash_def hashed_def serialize_bookkeeping)

lemma assignHash_keeps:
  "hashed createHash d k \<Longrightarrow> hashed createHash (assignHash createHash ref d) k"
  by (cases "k = ref")
     (auto simp: assignHash_def hashed_def serialize_bookkeeping split: option.splits)

lemma fold_assignHash_keeps:
  "hashed createHash d k \<Longrightarrow> hashed createHash (fold (assignHash createHash) refs d) k"
  by (induction refs arbitrary: d) (simp_all add: assignHash_keeps)

lemma fold_assignHash_hashed:
  "ref \<in> set refs \<Longrightarrow> ref \<in> dom d \<Longrightarrow>
     hashed createHash (fold (assignHash createHash) refs d) ref"
proof (induction refs arbitrary: d)
  case Nil
  then show ?case by simp
next
  case (Cons r refs)
  show ?case
  proof (cases "ref = r")
    case True
    with Cons.prems obtain e where "d r = Some e" by auto
    then have "hashed createHash (assignHash createHash r d) r" by (rule assignHash_same)
    with True show ?thesis by (simp add: fold_assignHash_keeps)
  next
    case False
    with Cons.prems have "ref \<in> set refs" and "ref \<in> dom (assignHash createHash r d)"
      by (simp_all add: assignHash_dom)
    then show ?thesis using Cons.IH by simp
  qed
qed

lemma applyEvent_changed_dom:
  assumes "applyEvent table (d, ch) ev = Inr (d', ch')" and "set ch \<subseteq> dom d"
  shows "set ch' \<subseteq> dom d'"
  using assms
  by (auto simp: applyEvent_def split: option.splits if_splits)

lemma applyEventsLoop_changed_dom:
  "applyEventsLoop table st evs = Inr st' \<Longrightarrow> set (snd st) \<subseteq> dom (fst st)
     \<Longrightarrow> set (snd st') \<subseteq> dom (fst st')"
proof (induction evs arbitrary: st)
  case Nil
  then show ?case by simp
next
  case (Cons ev evs)
  from Cons.prems(1) obtain st1 where
    1: "applyEvent table st ev = Inr st1" and 2: "applyEventsLoop table st1 evs = Inr st'"
    by (auto split: sum.splits)
  from 1 Cons.prems(2) have "set (snd st1) \<subseteq> dom (fst st1)"
    using applyEvent_changed_dom [of table "fst st" "snd st" ev "fst st1" "snd st1"] by simp
  with 2 show ?case by (rule Cons.IH)
qed

text \<open>
  C2. Whenever \<open>applyEvents\<close> returns, every entry it returns (every reference of the
  returned list, read in the resulting database) has a \<open>hash\<close> equal to the digest of that
  very entry serialized without \<open>hash\<close> and \<open>appliedEventIds\<close>.
\<close>

theorem applyEvents_returns_rehashed:
  assumes "applyEvents createHash table database events eventsFilename = Inr (database', changed)"
    and "ref \<in> set changed"
  shows "\<exists>entry. db_data database' ref = Some entry \<and>
           hash entry = Some (createHash (serialize entry [''hash'', ''appliedEventIds'']))"
proof -
  from assms(1) obtain entries where
    loop: "applyEventsLoop table (db_data database, []) events = Inr (entries, changed)"
    and db: "db_data database' = fold (assignHash createHash) changed entries"
    by (auto simp: applyEvents_def applyEventsOrig_def split: sum.splits prod.splits)
  from loop have "set changed \<subseteq> dom entries"
    using applyEventsLoop_changed_dom [of table "(db_data database, [])" events "(entries, changed)"]
    by simp
  with assms(2) have "ref \<in> dom entries" by auto
  with assms(2) have "hashed createHash (fold (assignHash createHash) changed entries) ref"
    by (rule fold_assignHash_hashed)
  with db show ?thesis by (auto simp: hashed_def split: option.splits)
qed


theorem applyEvents_returns_rehashed_witness:
  "applyEvents exHash exTable \<lparr>db_data = [''x'' \<mapsto> exEntry]\<rparr> (data exLog) ''events.db''
     = Inr (\<lparr>db_data = [''x'' \<mapsto>
               \<lparr>entry_id = ''x'', updated = Some ''2024-01-03'',
                 tags = Some [''beach'', ''sea'', ''sun''],
                 appliedEventIds = Some [''e1'', ''e2'', ''e3''],
                 files = None, hash = Some ''idupdatedtags''\<rparr>]\<rparr>, [''x'']) \<and>
   (\<exists>entry. [''x'' \<mapsto>
               \<lparr>entry_id = ''x'', updated = Some ''2024-01-03'',
                 tags = Some [''beach'', ''sea'', ''sun''],
                 appliedEventIds = Some [''e1'', ''e2'', ''e3''],
                 files = None, hash = Some ''idupdatedtags''\<rparr>] ''x'' = Some entry \<and>
      hash entry = Some (exHash (serialize entry [''hash'', ''appliedEventIds''])))"
proof -
  have run: "applyEvents exHash exTable \<lparr>db_data = [''x'' \<mapsto> exEntry]\<rparr> (data exLog) ''events.db''
     = Inr (\<lparr>db_data = [''x'' \<mapsto>
               \<lparr>entry_id = ''x'', updated = Some ''2024-01-03'',
                 tags = Some [''beach'', ''sea'', ''sun''],
                 appliedEventIds = Some [''e1'', ''e2'', ''e3''],
                 files = None, hash = Some ''idupdatedtags''\<rparr>]\<rparr>, [''x''])"
    by (simp add: applyEvents_def applyEventsOrig_def applyEvent_def assignHash_def
        appliedIds_def exTable_def exHash_def exEntry_def exLog_def exEvent_def
        serialize_def entryKeys_def optionalKey_def)
  show ?thesis
    using applyEvents_returns_rehashed [OF run, of "''x''"] run by simp
qed

subsection \<open>Replay is idempotent\<close>

lemma extends_refl: "extends d d"
  by (simp add: extends_def split: option.splits)

lemma extends_trans: "extends a b \<Longrightarrow> extends b c \<Longrightarrow> extends a c"
  unfolding extends_def
proof (intro allI)
  fix k
  assume ab: "\<forall>k. case a k of None \<Rightarrow> b k = None
      | Some e \<Rightarrow> \<exists>e'. b k = Some e' \<and> set (appliedIds e) \<subseteq> set (appliedIds e')"
    and bc: "\<forall>k. case b k of None \<Rightarrow> c k = None
      | Some e \<Rightarrow> \<exists>e'. c k = Some e' \<and> set (appliedIds e) \<subseteq> set (appliedIds e')"
  show "case a k of None \<Rightarrow> c k = None
      | Some e \<Rightarrow> \<exists>e'. c k = Some e' \<and> set (appliedIds e) \<subseteq> set (appliedIds e')"
    using ab [rule_format, of k] bc [rule_format, of k]
    by (fastforce split: option.splits)
qed

lemma settled_extends: "settled d ev \<Longrightarrow> extends d d' \<Longrightarrow> settled d' ev"
  unfolding settled_def extends_def
  by (erule_tac x = "targetId ev" in allE) (auto split: option.splits)

lemma applyEvent_extends:
  assumes grows: "\<forall>ty pl e e'. table ty pl e = Some e' \<longrightarrow> set (appliedIds e) \<subseteq> set (appliedIds e')"
    and step: "applyEvent table (d, ch) ev = Inr (d', ch')"
  shows "extends d d'" and "settled d' ev"
proof -
  show "settled d' ev"
    using step
    by (auto simp: applyEvent_def settled_def appliedIds_def split: option.splits if_splits)
  show "extends d d'"
  proof (cases "d (targetId ev)")
    case None
    with step show ?thesis by (simp add: applyEvent_def extends_refl)
  next
    case (Some entry)
    show ?thesis
    proof (cases "ev_id ev \<in> set (appliedIds entry)")
      case True
      with Some step show ?thesis by (simp add: applyEvent_def extends_refl)
    next
      case False
      with Some step obtain mutated where
        m: "table (ev_type ev) (payload ev) entry = Some mutated"
        and d': "d' = d(targetId ev \<mapsto>
                   mutated\<lparr>appliedEventIds := Some (appliedIds mutated @ [ev_id ev]),
                           updated := Some (createdAt ev)\<rparr>)"
        by (auto simp: applyEvent_def split: option.splits)
      from grows m have "set (appliedIds entry) \<subseteq> set (appliedIds mutated)" by blast
      then show ?thesis
        using Some d' by (auto simp: extends_def appliedIds_def split: option.splits)
    qed
  qed
qed

lemma applyEventsLoop_extends:
  assumes grows: "\<forall>ty pl e e'. table ty pl e = Some e' \<longrightarrow> set (appliedIds e) \<subseteq> set (appliedIds e')"
  shows "applyEventsLoop table st evs = Inr st' \<Longrightarrow>
           extends (fst st) (fst st') \<and> (\<forall>ev\<in>set evs. settled (fst st') ev)"
proof (induction evs arbitrary: st)
  case Nil
  then show ?case by (simp add: extends_refl)
next
  case (Cons ev evs)
  from Cons.prems obtain st1 where
    1: "applyEvent table st ev = Inr st1" and 2: "applyEventsLoop table st1 evs = Inr st'"
    by (auto split: sum.splits)
  from 1 have s: "applyEvent table (fst st, snd st) ev = Inr (fst st1, snd st1)" by simp
  note a = applyEvent_extends [OF grows s]
  from Cons.IH [OF 2] have b: "extends (fst st1) (fst st')"
    and c: "\<forall>ev\<in>set evs. settled (fst st') ev" by simp_all
  from a(1) b have "extends (fst st) (fst st')" by (rule extends_trans)
  moreover from a(2) b have "settled (fst st') ev" by (rule settled_extends)
  ultimately show ?case using c by simp
qed

lemma applyEvent_settled: "settled (fst st) ev \<Longrightarrow> applyEvent table st ev = Inr st"
  by (cases st) (auto simp: applyEvent_def settled_def split: option.splits)

lemma applyEventsLoop_settled:
  "\<forall>ev\<in>set evs. settled (fst st) ev \<Longrightarrow> applyEventsLoop table st evs = Inr st"
  by (induction evs) (simp_all add: applyEvent_settled)

lemma assignHash_extends: "extends d (assignHash createHash ref d)"
  by (auto simp: extends_def assignHash_def appliedIds_def split: option.splits)

lemma fold_assignHash_extends: "extends d (fold (assignHash createHash) refs d)"
proof (induction refs arbitrary: d)
  case Nil
  show ?case by (simp add: extends_refl)
next
  case (Cons r refs)
  have "extends d (assignHash createHash r d)" by (rule assignHash_extends)
  moreover have "extends (assignHash createHash r d)
                   (fold (assignHash createHash) refs (assignHash createHash r d))"
    by (rule Cons.IH)
  ultimately show ?case by (simp add: extends_trans)
qed

lemma exTable_grows:
  "\<forall>ty pl e e'. exTable ty pl e = Some e' \<longrightarrow> set (appliedIds e) \<subseteq> set (appliedIds e')"
  by (auto simp: exTable_def appliedIds_def
      split: if_splits jvalue.splits list.splits prod.splits)

text \<open>
  C1. If the mutation functions never drop an applied event id (the data model's
  invariant that \<open>appliedEventIds\<close> only grows) and \<open>applyEvents\<close> has returned for a
  database and an event sequence, then calling it again on the resulting database with
  the same events returns no changed entry and leaves the database as it is.
\<close>

theorem applyEvents_replay_idempotent:
  assumes grows: "\<forall>ty pl e e'. table ty pl e = Some e' \<longrightarrow> set (appliedIds e) \<subseteq> set (appliedIds e')"
    and first: "applyEvents createHash table database events eventsFilename = Inr (database1, changed1)"
  shows "applyEvents createHash table database1 events eventsFilename = Inr (database1, [])"
proof -
  from first obtain entries where
    loop: "applyEventsLoop table (db_data database, []) events = Inr (entries, changed1)"
    and db: "db_data database1 = fold (assignHash createHash) changed1 entries"
    by (auto simp: applyEvents_def applyEventsOrig_def split: sum.splits prod.splits)
  from applyEventsLoop_extends [OF grows loop]
  have "\<forall>ev\<in>set events. settled entries ev" by simp
  moreover have "extends entries (db_data database1)"
    unfolding db by (rule fold_assignHash_extends)
  ultimately have "\<forall>ev\<in>set events. settled (db_data database1) ev"
    by (blast intro: settled_extends)
  then have "applyEventsLoop table (db_data database1, []) events = Inr (db_data database1, [])"
    using applyEventsLoop_settled [of events "(db_data database1, [])" table] by simp
  then show ?thesis
    by (simp add: applyEvents_def applyEventsOrig_def)
qed

theorem applyEvents_replay_idempotent_witness:
  "applyEvents exHash exTable \<lparr>db_data = [''x'' \<mapsto> exEntry]\<rparr> (data exLog) ''events.db''
     = Inr (\<lparr>db_data = [''x'' \<mapsto>
               \<lparr>entry_id = ''x'', updated = Some ''2024-01-03'',
                 tags = Some [''beach'', ''sea'', ''sun''],
                 appliedEventIds = Some [''e1'', ''e2'', ''e3''],
                 files = None, hash = Some ''idupdatedtags''\<rparr>]\<rparr>, [''x'']) \<and>
   applyEvents exHash exTable
       \<lparr>db_data = [''x'' \<mapsto>
               \<lparr>entry_id = ''x'', updated = Some ''2024-01-03'',
                 tags = Some [''beach'', ''sea'', ''sun''],
                 appliedEventIds = Some [''e1'', ''e2'', ''e3''],
                 files = None, hash = Some ''idupdatedtags''\<rparr>]\<rparr> (data exLog) ''events.db''
     = Inr (\<lparr>db_data = [''x'' \<mapsto>
               \<lparr>entry_id = ''x'', updated = Some ''2024-01-03'',
                 tags = Some [''beach'', ''sea'', ''sun''],
                 appliedEventIds = Some [''e1'', ''e2'', ''e3''],
                 files = None, hash = Some ''idupdatedtags''\<rparr>]\<rparr>, [])"
proof -
  have run: "applyEvents exHash exTable \<lparr>db_data = [''x'' \<mapsto> exEntry]\<rparr> (data exLog) ''events.db''
     = Inr (\<lparr>db_data = [''x'' \<mapsto>
               \<lparr>entry_id = ''x'', updated = Some ''2024-01-03'',
                 tags = Some [''beach'', ''sea'', ''sun''],
                 appliedEventIds = Some [''e1'', ''e2'', ''e3''],
                 files = None, hash = Some ''idupdatedtags''\<rparr>]\<rparr>, [''x''])"
    by (simp add: applyEvents_def applyEventsOrig_def applyEvent_def assignHash_def
        appliedIds_def exTable_def exHash_def exEntry_def exLog_def exEvent_def
        serialize_def entryKeys_def optionalKey_def)
  show ?thesis
    using applyEvents_replay_idempotent [OF exTable_grows run] run by simp
qed

section \<open>Properties of mergeEvents\<close>

lemma mem_unionById:
  "x \<in> set (unionById es) \<longleftrightarrow> List.find (\<lambda>y. ev_id y = ev_id x) es = Some x"
proof (induction es)
  case Nil
  show ?case by simp
next
  case (Cons e es)
  show ?case
  proof (cases "ev_id e = ev_id x")
    case True
    then show ?thesis by auto
  next
    case False
    then have "x \<noteq> e" by auto
    with False Cons.IH show ?thesis by auto
  qed
qed

lemma find_append_first:
  "List.find P (as @ bs) = (case List.find P as of Some a \<Rightarrow> Some a | None \<Rightarrow> List.find P bs)"
  by (induction as) simp_all

lemma find_Some_holds: "List.find P xs = Some x \<Longrightarrow> x \<in> set xs \<and> P x"
  by (induction xs) (auto split: if_splits)

lemma find_append_swap:
  assumes shared: "\<forall>x\<in>set as. \<forall>y\<in>set bs. ev_id x = ev_id y \<longrightarrow> x = y"
  shows "List.find (\<lambda>y. ev_id y = i) (as @ bs) = List.find (\<lambda>y. ev_id y = i) (bs @ as)"
proof (cases "List.find (\<lambda>y. ev_id y = i) as")
  case None
  then show ?thesis by (simp add: find_append_first split: option.splits)
next
  case a: (Some a)
  show ?thesis
  proof (cases "List.find (\<lambda>y. ev_id y = i) bs")
    case None
    with a show ?thesis by (simp add: find_append_first)
  next
    case b: (Some b)
    from a have "a \<in> set as" and "ev_id a = i" using find_Some_holds [OF a] by simp_all
    moreover from b have "b \<in> set bs" and "ev_id b = i" using find_Some_holds [OF b] by simp_all
    ultimately have "a = b" using shared by simp
    with a b show ?thesis by (simp add: find_append_first)
  qed
qed

lemma unionById_swap_set:
  assumes shared: "\<forall>x\<in>set as. \<forall>y\<in>set bs. ev_id x = ev_id y \<longrightarrow> x = y"
  shows "set (unionById (as @ bs)) = set (unionById (bs @ as))"
proof (rule set_eqI)
  fix x
  show "x \<in> set (unionById (as @ bs)) \<longleftrightarrow> x \<in> set (unionById (bs @ as))"
    using find_append_swap [OF shared, of "ev_id x"] by (simp add: mem_unionById)
qed

lemma unionById_distinct_ids: "distinct (map ev_id (unionById es))"
proof (induction es)
  case Nil
  show ?case by simp
next
  case (Cons e es)
  have "distinct (map ev_id (filter (\<lambda>x. ev_id x \<noteq> ev_id e) (unionById es)))"
    using Cons.IH by (rule distinct_map_filter)
  then show ?case by auto
qed

lemma sortKey_distinct:
  "distinct (map ev_id es) \<Longrightarrow> distinct (map sortKey es)"
proof -
  assume d: "distinct (map ev_id es)"
  have "map ev_id es = map snd (map sortKey es)" by (simp add: sortKey_def)
  with d have "distinct (map snd (map sortKey es))" by simp
  then show ?thesis
    using distinct_map [of snd "map sortKey es"] by blast
qed

lemma sorted_union_swap:
  assumes shared: "\<forall>x\<in>set as. \<forall>y\<in>set bs. ev_id x = ev_id y \<longrightarrow> x = y"
  shows "sort_key sortKey (unionById (as @ bs)) = sort_key sortKey (unionById (bs @ as))"
proof (rule map_sorted_distinct_set_unique [where f = sortKey])
  have sets: "set (unionById (as @ bs)) = set (unionById (bs @ as))"
    using shared by (rule unionById_swap_set)
  have dab: "distinct (map sortKey (unionById (as @ bs)))"
    using unionById_distinct_ids by (rule sortKey_distinct)
  have dba: "distinct (map sortKey (unionById (bs @ as)))"
    using unionById_distinct_ids by (rule sortKey_distinct)
  show "set (sort_key sortKey (unionById (as @ bs))) = set (sort_key sortKey (unionById (bs @ as)))"
    using sets by simp
  show "inj_on sortKey (set (sort_key sortKey (unionById (as @ bs)))
          \<union> set (sort_key sortKey (unionById (bs @ as))))"
    using dab sets by (simp add: distinct_map)
  show "sorted (map sortKey (sort_key sortKey (unionById (as @ bs))))" by simp
  show "sorted (map sortKey (sort_key sortKey (unionById (bs @ as))))" by simp
  show "distinct (map sortKey (sort_key sortKey (unionById (as @ bs))))"
    using dab by (simp add: distinct_map)
  show "distinct (map sortKey (sort_key sortKey (unionById (bs @ as))))"
    using dba by (simp add: distinct_map)
qed

text \<open>
  C8. For two logs with compatible headers whose ids are globally unique, as the data
  model has them (an event of \<open>A\<close> and an event of \<open>B\<close> with the same id are the same
  event), \<open>mergeEvents(A, B)\<close> and \<open>mergeEvents(B, A)\<close> both succeed and return the same
  log: the event sequences are equal as sets, identical after the sort by
  \<open>(createdAt, id)\<close>, and in fact identical.
\<close>

theorem mergeEvents_commutative:
  assumes compat: "isEventTypeCompatible versionClass (header logA) (header logB)"
    and shared: "\<forall>x\<in>set (data logA). \<forall>y\<in>set (data logB). ev_id x = ev_id y \<longrightarrow> x = y"
  shows "\<exists>ab ba.
           mergeEvents versionClass logA logB = Inr ab \<and>
           mergeEvents versionClass logB logA = Inr ba \<and>
           set (data ab) = set (data ba) \<and>
           sort_key sortKey (data ab) = sort_key sortKey (data ba) \<and>
           ab = ba"
proof -
  let ?h = "if version (header logB) \<le> version (header logA) then header logA else header logB"
  let ?h' = "if version (header logA) \<le> version (header logB) then header logB else header logA"
  let ?ab = "\<lparr>header = ?h, data = sort_key sortKey (unionById (data logA @ data logB))\<rparr>"
  let ?ba = "\<lparr>header = ?h', data = sort_key sortKey (unionById (data logB @ data logA))\<rparr>"
  from compat have compat': "isEventTypeCompatible versionClass (header logB) (header logA)"
    by (simp add: isEventTypeCompatible_def)
  have 1: "mergeEvents versionClass logA logB = Inr ?ab"
    using compat by (simp add: mergeEvents_def)
  have 2: "mergeEvents versionClass logB logA = Inr ?ba"
    using compat' by (simp add: mergeEvents_def)
  have hd: "?h = ?h'"
  proof (cases "version (header logA) = version (header logB)")
    case True
    with compat have "header logA = header logB"
      by (simp add: isEventTypeCompatible_def)
    then show ?thesis by simp
  next
    case False
    then show ?thesis by auto
  qed
  have dt: "data ?ab = data ?ba"
    using sorted_union_swap [OF shared] by simp
  from hd dt have eq: "?ab = ?ba" by simp
  from 1 2 eq show ?thesis by (metis (no_types))
qed

theorem mergeEvents_commutative_witness:
  "mergeEvents exVersionClass exLog exOtherLog
     = Inr \<lparr>header = \<lparr>version = 2, logType = ''events''\<rparr>,
            data = [exEvent ''e0'' ''hill'' ''2023-12-31'',
                    exEvent ''e1'' ''beach'' ''2024-01-01'',
                    exEvent ''e2'' ''sea'' ''2024-01-02'',
                    exEvent ''e3'' ''sun'' ''2024-01-03'']\<rparr> \<and>
   mergeEvents exVersionClass exOtherLog exLog = mergeEvents exVersionClass exLog exOtherLog"
proof -
  have run: "mergeEvents exVersionClass exLog exOtherLog
     = Inr \<lparr>header = \<lparr>version = 2, logType = ''events''\<rparr>,
            data = [exEvent ''e0'' ''hill'' ''2023-12-31'',
                    exEvent ''e1'' ''beach'' ''2024-01-01'',
                    exEvent ''e2'' ''sea'' ''2024-01-02'',
                    exEvent ''e3'' ''sun'' ''2024-01-03'']\<rparr>"
    by (simp add: mergeEvents_def isEventTypeCompatible_def exVersionClass_def exLog_def
        exOtherLog_def exHeader_def exEvent_def sortKey_def)
  have compat: "isEventTypeCompatible exVersionClass (header exLog) (header exOtherLog)"
    by (simp add: isEventTypeCompatible_def exVersionClass_def exLog_def exOtherLog_def exHeader_def)
  have shared: "\<forall>x\<in>set (data exLog). \<forall>y\<in>set (data exOtherLog). ev_id x = ev_id y \<longrightarrow> x = y"
    by (simp add: exLog_def exOtherLog_def exEvent_def)
  from mergeEvents_commutative [OF compat shared]
  have "mergeEvents exVersionClass exOtherLog exLog = mergeEvents exVersionClass exLog exOtherLog"
    by auto
  with run show ?thesis by simp
qed

end
